theory Spec2Isabelle
  imports Main
begin

section \<open>Strings\<close>

text \<open>
  A Python \<open>str\<close> is a sequence of Unicode code points, and \<open>len\<close>, slicing and the
  regular expressions of the program count code points. A string is therefore a list of
  code points; \<open>u\<close> writes an ASCII literal. The non-ASCII literals of the source are
  given by their code points below.

  Case mapping (\<open>str.lower\<close>, \<open>re.I\<close>) and the digit class \<open>\\d\<close> are modelled on the
  ASCII range; the whitespace class is the full set of \<open>str.isspace\<close>.
\<close>

type_synonym ustr = "nat list"

definition u :: "string \<Rightarrow> ustr" where
  "u s = map of_char s"

definition lower_cp :: "nat \<Rightarrow> nat" where
  "lower_cp c = (if 65 \<le> c \<and> c \<le> 90 then c + 32 else c)"

definition upper_cp :: "nat \<Rightarrow> nat" where
  "upper_cp c = (if 97 \<le> c \<and> c \<le> 122 then c - 32 else c)"

definition lower :: "ustr \<Rightarrow> ustr" where
  "lower s = map lower_cp s"

definition in_ranges :: "(nat \<times> nat) list \<Rightarrow> nat \<Rightarrow> bool" where
  "in_ranges rs c = list_ex (\<lambda>(lo, hi). lo \<le> c \<and> c \<le> hi) rs"

text \<open>The code points for which \<open>str.isspace\<close> holds; also the class \<open>\\s\<close> of \<open>re\<close>.\<close>

definition space_ranges :: "(nat \<times> nat) list" where
  "space_ranges = [(9, 13), (28, 32), (133, 133), (160, 160), (5760, 5760), (8192, 8202),
                   (8232, 8233), (8239, 8239), (8287, 8287), (12288, 12288)]"

definition is_space :: "nat \<Rightarrow> bool" where
  "is_space c = in_ranges space_ranges c"


text \<open>\<open>s.strip()\<close>\<close>

definition strip :: "ustr \<Rightarrow> ustr" where
  "strip s = rev (dropWhile is_space (rev (dropWhile is_space s)))"

text \<open>\<open>s.startswith(p)\<close> and \<open>p in s\<close>\<close>

definition starts_with :: "ustr \<Rightarrow> ustr \<Rightarrow> bool" where
  "starts_with p s = (take (length p) s = p)"

fun contains :: "ustr \<Rightarrow> ustr \<Rightarrow> bool" where
  "contains p [] = (p = [])"
| "contains p (c # cs) = (starts_with p (c # cs) \<or> contains p cs)"

text \<open>\<open>sep.join(xs)\<close>\<close>

fun join :: "ustr \<Rightarrow> ustr list \<Rightarrow> ustr" where
  "join sep [] = []"
| "join sep [x] = x"
| "join sep (x # y # ys) = x @ sep @ join sep (y # ys)"

section \<open>Regular expressions\<close>

text \<open>
  The patterns of the source are values of \<open>rx\<close>, matched by a backtracking matcher with
  the priorities of Python's \<open>re\<close>: the left alternative first, greedy repetition (the
  longest count first), the leftmost start position first. A matcher state is the list of
  closed groups and the rest of the input; \<open>rx_match\<close> lists the states after a match in
  priority order. \<open>Cls neg rs\<close> is a character class of ranges (negated when \<open>neg\<close>),
  \<open>Rep lo hi r\<close> is \<open>r{lo,hi}\<close> (\<open>hi = None\<close>: unbounded), \<open>Grp\<close> a capturing group. The
  flag \<open>ci\<close> is \<open>re.I\<close>.
\<close>

datatype rx = Eps | Lit ustr | Cls bool "(nat \<times> nat) list" | Seq rx rx | Alt rx rx
  | Rep nat "nat option" rx | Grp rx

definition chr_eq :: "bool \<Rightarrow> nat \<Rightarrow> nat \<Rightarrow> bool" where
  "chr_eq ci a b = (if ci then lower_cp a = lower_cp b else a = b)"

fun lit_match :: "bool \<Rightarrow> ustr \<Rightarrow> ustr \<Rightarrow> ustr option" where
  "lit_match ci [] s = Some s"
| "lit_match ci (p # ps) [] = None"
| "lit_match ci (p # ps) (c # cs) = (if chr_eq ci p c then lit_match ci ps cs else None)"

definition cls_match :: "bool \<Rightarrow> bool \<Rightarrow> (nat \<times> nat) list \<Rightarrow> nat \<Rightarrow> bool" where
  "cls_match ci neg rs c =
     ((in_ranges rs c \<or> (ci \<and> (in_ranges rs (lower_cp c) \<or> in_ranges rs (upper_cp c)))) \<noteq> neg)"

type_synonym mstate = "ustr list \<times> ustr"

primrec rep_greedy ::
  "(mstate \<Rightarrow> mstate list) \<Rightarrow> nat \<Rightarrow> nat \<Rightarrow> nat option \<Rightarrow> mstate \<Rightarrow> mstate list" where
  "rep_greedy step 0 lo hi st = (if lo = 0 then [st] else [])"
| "rep_greedy step (Suc fuel) lo hi st =
     (if hi = Some 0 then [st]
      else concat (map (rep_greedy step fuel (lo - 1) (map_option (\<lambda>h. h - 1) hi))
                       (filter (\<lambda>st'. length (snd st') < length (snd st)) (step st)))
           @ (if lo = 0 then [st] else []))"

primrec rx_match :: "bool \<Rightarrow> rx \<Rightarrow> mstate \<Rightarrow> mstate list" where
  "rx_match ci Eps = (\<lambda>st. [st])"
| "rx_match ci (Lit p) =
     (\<lambda>st. case lit_match ci p (snd st) of None \<Rightarrow> [] | Some r \<Rightarrow> [(fst st, r)])"
| "rx_match ci (Cls neg rs) =
     (\<lambda>st. case snd st of [] \<Rightarrow> []
            | c # cs \<Rightarrow> if cls_match ci neg rs c then [(fst st, cs)] else [])"
| "rx_match ci (Seq a b) = (\<lambda>st. concat (map (rx_match ci b) (rx_match ci a st)))"
| "rx_match ci (Alt a b) = (\<lambda>st. rx_match ci a st @ rx_match ci b st)"
| "rx_match ci (Rep lo hi a) =
     (\<lambda>st. rep_greedy (rx_match ci a) (length (snd st)) lo hi st)"
| "rx_match ci (Grp a) =
     (\<lambda>st. map (\<lambda>st'. (fst st' @ [take (length (snd st) - length (snd st')) (snd st)], snd st'))
                (rx_match ci a st))"

text \<open>
  \<open>re.search\<close>: the match at the leftmost start position, as the pair of \<open>group(0)\<close> and
  the list of the captured groups; \<open>None\<close> when no position matches.
\<close>

fun rx_search :: "bool \<Rightarrow> rx \<Rightarrow> ustr \<Rightarrow> (ustr \<times> ustr list) option" where
  "rx_search ci r s =
     (case rx_match ci r ([], s) of
        st # _ \<Rightarrow> Some (take (length s - length (snd st)) s, fst st)
      | [] \<Rightarrow> (case s of [] \<Rightarrow> None | _ # cs \<Rightarrow> rx_search ci r cs))"

fun seqs :: "rx list \<Rightarrow> rx" where
  "seqs [] = Eps"
| "seqs [r] = r"
| "seqs (r # rs) = Seq r (seqs rs)"

fun alts :: "rx list \<Rightarrow> rx" where
  "alts [] = Cls False []"
| "alts [r] = r"
| "alts (r # rs) = Alt r (alts rs)"

section \<open>Link discovery: \<open>is_article_url\<close>\<close>

text \<open>
  The pattern \<open>blog\\.sina\\.com\\.cn/s/blog_[0-9a-z]+\\.html\<close> of the last branch.
\<close>

definition article_rx :: rx where
  "article_rx = seqs [Lit (u ''blog.sina.com.cn/s/blog_''),
                      Rep 1 None (Cls False [(48, 57), (97, 122)]),
                      Lit (u ''.html'')]"

text \<open>
  \<open>is_article_url(url, regex_pattern)\<close>. The configured pattern is any string, compiled
  and run by \<open>re\<close>: \<open>re_user pattern url\<close> says whether \<open>re.search(pattern, url)\<close>
  finds a match. \<open>None\<close> and the empty string are the falsy patterns.
\<close>

definition is_article_url :: "(ustr \<Rightarrow> ustr \<Rightarrow> bool) \<Rightarrow> ustr \<Rightarrow> ustr option \<Rightarrow> bool" where
  "is_article_url re_user url regex_pattern =
     (case regex_pattern of
        Some (c # cs) \<Rightarrow> re_user (c # cs) url
      | _ \<Rightarrow> if contains (u ''blog.sina.com.cn/s/blog_'') url then True
             else rx_search False article_rx url \<noteq> None)"

section \<open>The document tree\<close>

text \<open>
  A parsed page as BeautifulSoup holds it: a text node, or an element with its tag name,
  its single-valued attributes (\<open>id\<close>, \<open>content\<close>, \<open>src\<close>, \<open>href\<close>, ...: strings), its
  multi-valued attributes (\<open>class\<close>, \<open>rel\<close>: lists of tokens, as the HTML tree builder
  splits them) and its children. The soup itself is the root element \<open>[document]\<close>.
  Parsing the markup is the library's work; the functions below start from the tree.
\<close>

datatype node = Text ustr | Elem ustr "(ustr \<times> ustr) list" "(ustr \<times> ustr list) list" "node list"

text \<open>\<open>node.get(k)\<close> for a single-valued and for a multi-valued attribute.\<close>

fun get_attr :: "node \<Rightarrow> ustr \<Rightarrow> ustr option" where
  "get_attr (Text s) k = None"
| "get_attr (Elem t a m cs) k = map_of a k"

fun get_multi :: "node \<Rightarrow> ustr \<Rightarrow> ustr list option" where
  "get_multi (Text s) k = None"
| "get_multi (Elem t a m cs) k = map_of m k"

fun tag_name :: "node \<Rightarrow> ustr option" where
  "tag_name (Text s) = None"
| "tag_name (Elem t a m cs) = Some t"

text \<open>The descendants of a node in document order (the node itself is not one).\<close>

fun descendants :: "node \<Rightarrow> node list" where
  "descendants (Text s) = []"
| "descendants (Elem t a m cs) = concat (map (\<lambda>c. c # descendants c) cs)"

fun strings_of :: "node list \<Rightarrow> ustr list" where
  "strings_of [] = []"
| "strings_of (Text s # ns) = s # strings_of ns"
| "strings_of (Elem t a m cs # ns) = strings_of ns"

text \<open>
  \<open>node.get_text(sep, strip=True)\<close>: every string below the node is stripped, the empty
  ones are dropped, the rest joined by \<open>sep\<close>.
\<close>

definition get_text :: "ustr \<Rightarrow> node \<Rightarrow> ustr" where
  "get_text sep n = join sep (filter (\<lambda>s. s \<noteq> []) (map strip (strings_of (descendants n))))"

text \<open>\<open>node.find_all(...)\<close> and \<open>node.find(...)\<close> with the filter as a predicate.\<close>

definition find_all :: "(node \<Rightarrow> bool) \<Rightarrow> node \<Rightarrow> node list" where
  "find_all p n = filter p (descendants n)"

definition find_first :: "(node \<Rightarrow> bool) \<Rightarrow> node \<Rightarrow> node option" where
  "find_first p n = (case find_all p n of [] \<Rightarrow> None | x # _ \<Rightarrow> Some x)"

definition named :: "ustr list \<Rightarrow> node \<Rightarrow> bool" where
  "named names n = (case tag_name n of None \<Rightarrow> False | Some t \<Rightarrow> List.member names t)"

text \<open>
  The filter \<open>class_=re.compile(r)\<close>: some class token matches, or the tokens joined by a
  blank do; an element without the attribute never matches. The filter
  \<open>id=re.compile(r)\<close> searches the attribute's string.
\<close>

definition class_matches :: "bool \<Rightarrow> rx \<Rightarrow> node \<Rightarrow> bool" where
  "class_matches ci r n =
     (case get_multi n (u ''class'') of
        None \<Rightarrow> False
      | Some cs \<Rightarrow> list_ex (\<lambda>c. rx_search ci r c \<noteq> None) cs
                   \<or> rx_search ci r (join (u '' '') cs) \<noteq> None)"

definition id_matches :: "bool \<Rightarrow> rx \<Rightarrow> node \<Rightarrow> bool" where
  "id_matches ci r n =
     (case get_attr n (u ''id'') of None \<Rightarrow> False | Some v \<Rightarrow> rx_search ci r v \<noteq> None)"

text \<open>
  \<open>for tag in ...: tag.decompose()\<close> over the descendants that satisfy \<open>p\<close>: each of them
  leaves the tree with its subtree.
\<close>

fun remove_all :: "(node \<Rightarrow> bool) \<Rightarrow> node \<Rightarrow> node" where
  "remove_all p (Text s) = Text s"
| "remove_all p (Elem t a m cs) = Elem t a m (map (remove_all p) (filter (\<lambda>c. \<not> p c) cs))"

section \<open>Exceptions\<close>

text \<open>
  The exceptions of the program, as values. \<open>RequestException\<close> stands for every error
  that \<open>requests\<close> raises (transport failures and the status errors of
  \<open>raise_for_status\<close>), \<open>SelectorSyntaxError\<close> for the error that the selector engine
  raises when \<open>soup.select\<close> or \<open>soup.select_one\<close> gets a string that is no selector.
\<close>

datatype py_error = IndexError | ValueError | RequestException | SelectorSyntaxError

text \<open>\<open>xs[i]\<close> for \<open>i \<ge> 0\<close>\<close>

definition subscript :: "'a list \<Rightarrow> nat \<Rightarrow> py_error + 'a" where
  "subscript xs i = (if i < length xs then Inr (xs ! i) else Inl IndexError)"

section \<open>CSS selectors\<close>

text \<open>
  The selectors written in the source are compound selectors (\<open>tag#id.class[attr='v']\<close>)
  joined by the descendant combinator and by commas. \<open>Compound tag id classes attr\<close> is one
  compound, a chain is a list of compounds (the subject last), a selector a list of chains.
  Tag names compare without case, ids, classes and attribute values exactly; a
  multi-valued attribute is compared as its tokens joined by a blank.
\<close>

datatype compound = Compound "ustr option" "ustr option" "ustr list" "(ustr \<times> ustr) option"

definition attr_string :: "node \<Rightarrow> ustr \<Rightarrow> ustr option" where
  "attr_string n k =
     (case get_attr n k of Some v \<Rightarrow> Some v
      | None \<Rightarrow> map_option (join (u '' '')) (get_multi n k))"

fun matches_compound :: "compound \<Rightarrow> node \<Rightarrow> bool" where
  "matches_compound (Compound tg i cls av) n =
     (case tag_name n of
        None \<Rightarrow> False
      | Some t \<Rightarrow>
          (case tg of None \<Rightarrow> True | Some x \<Rightarrow> lower x = lower t)
          \<and> (case i of None \<Rightarrow> True | Some x \<Rightarrow> get_attr n (u ''id'') = Some x)
          \<and> list_all (\<lambda>c. case get_multi n (u ''class'') of None \<Rightarrow> False
                               | Some ks \<Rightarrow> List.member ks c) cls
          \<and> (case av of None \<Rightarrow> True | Some (k, v) \<Rightarrow> attr_string n k = Some v))"

fun anc_match :: "compound list \<Rightarrow> node list \<Rightarrow> bool" where
  "anc_match [] anc = True"
| "anc_match (c # cs) [] = False"
| "anc_match (c # cs) (a # anc) =
     ((matches_compound c a \<and> anc_match cs anc) \<or> anc_match (c # cs) anc)"

fun chain_matches :: "compound list \<Rightarrow> node list \<Rightarrow> node \<Rightarrow> bool" where
  "chain_matches [] anc n = False"
| "chain_matches (c # cs) anc n = (matches_compound c n \<and> anc_match cs anc)"

text \<open>
  \<open>select_walk sel anc n\<close>: the descendants of \<open>n\<close> that match a chain of \<open>sel\<close>, in
  document order; \<open>anc\<close> are the ancestors of \<open>n\<close>, the nearest first.
\<close>

fun select_walk :: "compound list list \<Rightarrow> node list \<Rightarrow> node \<Rightarrow> node list" where
  "select_walk sel anc (Text s) = []"
| "select_walk sel anc (Elem t a m cs) =
     concat (map (\<lambda>c. (if list_ex (\<lambda>ch. chain_matches (rev ch) (Elem t a m cs # anc) c) sel
                        then [c] else [])
                       @ select_walk sel (Elem t a m cs # anc) c) cs)"

text \<open>
  \<open>soup.select(sel)\<close> takes the selector as a string. The strings that occur in the
  source are parsed here; any other string (a configured selector) is run by the
  selector engine \<open>css\<close>, which the functions below take as their first argument.
\<close>

definition known_selector :: "ustr \<Rightarrow> compound list list option" where
  "known_selector = map_of
     [(u ''h2.titName'', [[Compound (Some (u ''h2'')) None [u ''titName''] None]]),
      (u ''h1'', [[Compound (Some (u ''h1'')) None [] None]]),
      (u ''title'', [[Compound (Some (u ''title'')) None [] None]]),
      (u ''span.time'', [[Compound (Some (u ''span'')) None [u ''time''] None]]),
      (u ''span.time SG_txtc'', [[Compound (Some (u ''span'')) None [u ''time''] None,
                                  Compound (Some (u ''SG_txtc'')) None [] None]]),
      (u ''a[rel='category tag']'',
         [[Compound (Some (u ''a'')) None [] (Some (u ''rel'', u ''category tag''))]]),
      (u ''a.blogCategory'', [[Compound (Some (u ''a'')) None [u ''blogCategory''] None]]),
      (u ''span.category'', [[Compound (Some (u ''span'')) None [u ''category''] None]]),
      (u ''a[rel='tag'], .blog_tag a, .tag a'',
         [[Compound (Some (u ''a'')) None [] (Some (u ''rel'', u ''tag''))],
          [Compound None None [u ''blog_tag''] None, Compound (Some (u ''a'')) None [] None],
          [Compound None None [u ''tag''] None, Compound (Some (u ''a'')) None [] None]]),
      (u ''div#sina_keyword_ad_area2'',
         [[Compound (Some (u ''div'')) (Some (u ''sina_keyword_ad_area2'')) [] None]]),
      (u ''div.articalContent'', [[Compound (Some (u ''div'')) None [u ''articalContent''] None]]),
      (u ''div#articlebody'', [[Compound (Some (u ''div'')) (Some (u ''articlebody'')) [] None]]),
      (u ''div#artibody'', [[Compound (Some (u ''div'')) (Some (u ''artibody'')) [] None]])]"

definition soup_select :: "(ustr \<Rightarrow> node \<Rightarrow> node list) \<Rightarrow> ustr \<Rightarrow> node \<Rightarrow> node list" where
  "soup_select css sel soup =
     (case known_selector sel of Some ast \<Rightarrow> select_walk ast [] soup | None \<Rightarrow> css sel soup)"

definition select_one :: "(ustr \<Rightarrow> node \<Rightarrow> node list) \<Rightarrow> ustr \<Rightarrow> node \<Rightarrow> node option" where
  "select_one css sel soup = (case soup_select css sel soup of [] \<Rightarrow> None | x # _ \<Rightarrow> Some x)"

text \<open>A selector engine that finds nothing, for pages on which only known selectors run.\<close>

definition no_css :: "ustr \<Rightarrow> node \<Rightarrow> node list" where
  "no_css sel soup = []"

text \<open>
  The engine raises \<open>SelectorSyntaxError\<close> for a string that is no selector: \<open>rejects\<close>
  says which strings it refuses. The strings written in the source are selectors and are
  never refused. \<open>soup_select_checked\<close> and \<open>select_one_checked\<close> are \<open>soup.select\<close> and
  \<open>soup.select_one\<close> on a configured string, with that error; \<open>soup_select\<close> and
  \<open>select_one\<close> are the results for a string that is accepted.
\<close>

definition soup_select_checked ::
  "(ustr \<Rightarrow> bool) \<Rightarrow> (ustr \<Rightarrow> node \<Rightarrow> node list) \<Rightarrow> ustr \<Rightarrow> node
   \<Rightarrow> py_error + node list" where
  "soup_select_checked rejects css sel soup =
     (if known_selector sel = None \<and> rejects sel then Inl SelectorSyntaxError
      else Inr (soup_select css sel soup))"

definition select_one_checked ::
  "(ustr \<Rightarrow> bool) \<Rightarrow> (ustr \<Rightarrow> node \<Rightarrow> node list) \<Rightarrow> ustr \<Rightarrow> node
   \<Rightarrow> py_error + node option" where
  "select_one_checked rejects css sel soup =
     (case soup_select_checked rejects css sel soup of
        Inl e \<Rightarrow> Inl e
      | Inr [] \<Rightarrow> Inr None
      | Inr (x # _) \<Rightarrow> Inr (Some x))"

text \<open>
  An engine that refuses the empty string and the string \<open>div[\<close>, as the library does, and
  no other string of the examples.
\<close>

definition rejects_strict :: "ustr \<Rightarrow> bool" where
  "rejects_strict sel = (sel = [] \<or> sel = u ''div['')"

section \<open>Content extractor: the content node\<close>

text \<open>The words for tag (U+6807 U+7B7E) and for category (U+5206 U+7C7B).\<close>

definition word_tag :: ustr where
  "word_tag = [26631, 31614]"

definition word_category :: ustr where
  "word_category = [20998, 31867]"

text \<open>\<open>" ".join(node.get("class", []))\<close>\<close>

definition class_string :: "node \<Rightarrow> ustr" where
  "class_string node =
     join (u '' '') (case get_multi node (u ''class'') of None \<Rightarrow> [] | Some cs \<Rightarrow> cs)"

text \<open>The pattern \<open>(blog_tag|blog_class)\<close>.\<close>

definition tag_rx :: rx where
  "tag_rx = alts [Lit (u ''blog_tag''), Lit (u ''blog_class'')]"

definition is_tag_block :: "node \<Rightarrow> bool" where
  "is_tag_block node =
     (let classes = class_string node
      in if contains (u ''articalTag'') classes then True
         else if find_first (class_matches True tag_rx) node \<noteq> None then True
         else let text = get_text (u '' '') node
              in if contains word_tag text \<and> contains word_category text \<and> length text < 300
                 then True else False)"

text \<open>
  The patterns \<open>(nav|menu|footer|foot|side|comment|share|recommend)\<close> for the id and
  \<open>(nav|menu|footer|foot|side|comment|share|recommend|articaltag)\<close> for the classes.
\<close>

definition noise_id_rx :: rx where
  "noise_id_rx = alts (map (\<lambda>w. Lit (u w))
     [''nav'', ''menu'', ''footer'', ''foot'', ''side'', ''comment'', ''share'', ''recommend''])"

definition noise_class_rx :: rx where
  "noise_class_rx = alts (map (\<lambda>w. Lit (u w))
     [''nav'', ''menu'', ''footer'', ''foot'', ''side'', ''comment'', ''share'', ''recommend'',
      ''articaltag''])"

definition is_noise_node :: "node \<Rightarrow> bool" where
  "is_noise_node node =
     (let node_id = lower (case get_attr node (u ''id'') of None \<Rightarrow> [] | Some v \<Rightarrow> v)
      in if rx_search False noise_id_rx node_id \<noteq> None then True
         else let classes = lower (class_string node)
              in if rx_search False noise_class_rx classes \<noteq> None then True else False)"

fun pick_html ::
  "(ustr \<Rightarrow> bool) \<Rightarrow> (ustr \<Rightarrow> node \<Rightarrow> node list) \<Rightarrow> node \<Rightarrow> ustr list
   \<Rightarrow> py_error + node option" where
  "pick_html rejects css soup [] = Inr None"
| "pick_html rejects css soup (sel # sels) =
     (if sel = [] then pick_html rejects css soup sels
      else case select_one_checked rejects css sel soup of
             Inl e \<Rightarrow> Inl e
           | Inr (Some node) \<Rightarrow> Inr (Some node)
           | Inr None \<Rightarrow> pick_html rejects css soup sels)"

text \<open>\<open>if node and not is_tag_block(node): return node\<close>\<close>

definition accept :: "node option \<Rightarrow> node option" where
  "accept found = (case found of None \<Rightarrow> None
                   | Some node \<Rightarrow> if \<not> is_tag_block node then Some node else None)"

text \<open>The loop over the known content containers.\<close>

fun first_container :: "(ustr \<Rightarrow> node \<Rightarrow> node list) \<Rightarrow> node \<Rightarrow> ustr list \<Rightarrow> node option" where
  "first_container css soup [] = None"
| "first_container css soup (sel # sels) =
     (case accept (select_one css sel soup) of
        Some node \<Rightarrow> Some node
      | None \<Rightarrow> first_container css soup sels)"

text \<open>The pattern \<open>(articalContent|article|post|content)\<close>.\<close>

definition content_class_rx :: rx where
  "content_class_rx =
     alts (map (\<lambda>w. Lit (u w)) [''articalContent'', ''article'', ''post'', ''content''])"

text \<open>
  The last resort: all \<open>div\<close> elements, without the noise nodes, sorted by the length of
  their text, the longest first; \<open>candidates[0]\<close> of a list that is not empty. The sort
  with \<open>reverse=True\<close> is stable, as is \<open>sort_key\<close> on the negated length: among the
  longest, the first in document order comes first.
\<close>

definition largest_text_div :: "node \<Rightarrow> node option" where
  "largest_text_div soup =
     (case find_all (named [u ''div'']) soup of
        [] \<Rightarrow> None
      | c # cs \<Rightarrow>
         (case filter (\<lambda>c. \<not> is_noise_node c) (c # cs) of
            [] \<Rightarrow> None
          | d # ds \<Rightarrow> Some (hd (sort_key (\<lambda>x. - int (length (get_text (u '' '') x))) (d # ds)))))"

text \<open>
  \<open>guess_content_node(soup, selectors)\<close>. The configured chain may raise the engine's
  error; the steps after it run selectors of the source only.
\<close>

definition guess_content_node ::
  "(ustr \<Rightarrow> bool) \<Rightarrow> (ustr \<Rightarrow> node \<Rightarrow> node list) \<Rightarrow> node \<Rightarrow> ustr list
   \<Rightarrow> py_error + node option" where
  "guess_content_node rejects css soup selectors =
     (case pick_html rejects css soup selectors of
        Inl e \<Rightarrow> Inl e
      | Inr (Some node) \<Rightarrow> Inr (Some node)
      | Inr None \<Rightarrow>
     (case first_container css soup
             [u ''div#sina_keyword_ad_area2'', u ''div.articalContent'',
              u ''div#articlebody'', u ''div#artibody''] of
        Some node \<Rightarrow> Inr (Some node)
      | None \<Rightarrow>
     (case accept (find_first (\<lambda>n. named [u ''div''] n
                                  \<and> id_matches True (Lit (u ''sina_keyword_ad_area'')) n) soup) of
        Some node \<Rightarrow> Inr (Some node)
      | None \<Rightarrow>
     (case accept (find_first (\<lambda>n. named [u ''div''] n
                                  \<and> class_matches True content_class_rx n) soup) of
        Some node \<Rightarrow> Inr (Some node)
      | None \<Rightarrow> Inr (largest_text_div soup)))))"

section \<open>Content sanitizer\<close>

text \<open>
  The filter \<open>["script", "style", "noscript", "iframe"]\<close> and the selector
  \<open>.articalTag, .blog_tag, .blog_class, .share, .shareBtn, #share, .comment, #comment\<close>.
  Both look at the element alone, so the elements they find are those that satisfy the
  predicate.
\<close>

definition is_script :: "node \<Rightarrow> bool" where
  "is_script = named [u ''script'', u ''style'', u ''noscript'', u ''iframe'']"

definition removed_sel :: "compound list" where
  "removed_sel =
     [Compound None None [u ''articalTag''] None, Compound None None [u ''blog_tag''] None,
      Compound None None [u ''blog_class''] None, Compound None None [u ''share''] None,
      Compound None None [u ''shareBtn''] None, Compound None (Some (u ''share'')) [] None,
      Compound None None [u ''comment''] None, Compound None (Some (u ''comment'')) [] None]"

definition is_removed :: "node \<Rightarrow> bool" where
  "is_removed n = list_ex (\<lambda>c. matches_compound c n) removed_sel"

definition clean_content :: "node \<Rightarrow> node" where
  "clean_content node = remove_all is_removed (remove_all is_script node)"

subsection \<open>Example pages\<close>

text \<open>
  A page whose only \<open>div\<close> holds the tag and category line, beside a paragraph:
  \<open><div>TAG: x CATEGORY: y</div><p>hi</p>\<close> with the two native words.
\<close>

definition tag_div :: node where
  "tag_div = Elem (u ''div'') [] [] [Text (word_tag @ u '': x '' @ word_category @ u '': y'')]"

definition tag_page :: node where
  "tag_page = Elem (u ''[document]'') [] [] [tag_div, Elem (u ''p'') [] [] [Text (u ''hi'')]]"

text \<open>
  A page with a tag block of class \<open>articalContent\<close> before the article body:
  \<open><div class="articalContent"><a class="blog_tag">t</a></div><div id="articlebody">body</div>\<close>.
\<close>

definition body_div :: node where
  "body_div = Elem (u ''div'') [(u ''id'', u ''articlebody'')] [] [Text (u ''body'')]"

definition tag_container :: node where
  "tag_container = Elem (u ''div'') [] [(u ''class'', [u ''articalContent''])]
     [Elem (u ''a'') [] [(u ''class'', [u ''blog_tag''])] [Text (u ''t'')]]"

definition body_page :: node where
  "body_page = Elem (u ''[document]'') [] [] [tag_container, body_div]"

section \<open>Content extractor: the text fields\<close>

text \<open>\<open>s.split(c, 1)\<close> for a separator of one character \<open>c\<close>\<close>

definition split1 :: "nat \<Rightarrow> ustr \<Rightarrow> ustr list" where
  "split1 c s = (case dropWhile (\<lambda>x. x \<noteq> c) s of
                   [] \<Rightarrow> [s]
                 | _ # rest \<Rightarrow> [takeWhile (\<lambda>x. x \<noteq> c) s, rest])"

text \<open>
  \<open>s.replace(old, new)\<close>: the occurrences of \<open>old\<close> from the left, without overlap. With
  an empty \<open>old\<close>, \<open>new\<close> goes before every character and at the end.
\<close>

fun replace_from :: "ustr \<Rightarrow> ustr \<Rightarrow> ustr \<Rightarrow> ustr" where
  "replace_from old new [] = []"
| "replace_from old new (c # cs) =
     (if starts_with old (c # cs) then new @ replace_from old new (drop (length old - 1) cs)
      else c # replace_from old new cs)"

definition replace :: "ustr \<Rightarrow> ustr \<Rightarrow> ustr \<Rightarrow> ustr" where
  "replace old new s =
     (if old = [] then new @ concat (map (\<lambda>c. c # new) s) else replace_from old new s)"

text \<open>
  The filter \<open>attrs={k: v}\<close> with a string \<open>v\<close>: the attribute equals \<open>v\<close>; an element
  without the attribute matches the empty string only.
\<close>

definition attr_is :: "ustr \<Rightarrow> ustr \<Rightarrow> node \<Rightarrow> bool" where
  "attr_is k v n = (case get_attr n k of None \<Rightarrow> v = [] | Some x \<Rightarrow> x = v)"

text \<open>
  \<open>soup.find("meta", attrs={"property": prop}) or soup.find("meta", attrs={"name": prop})\<close>;
  an element is truthy.
\<close>

definition find_meta :: "node \<Rightarrow> ustr \<Rightarrow> node option" where
  "find_meta soup prop =
     (case find_first (\<lambda>n. named [u ''meta''] n \<and> attr_is (u ''property'') prop n) soup of
        Some node \<Rightarrow> Some node
      | None \<Rightarrow> find_first (\<lambda>n. named [u ''meta''] n \<and> attr_is (u ''name'') prop n) soup)"












definition group1 :: "ustr list \<Rightarrow> py_error + ustr" where
  "group1 gs = subscript gs 0"






text \<open>
  The configuration: the selector chains of \<open>config["selectors"]\<close> (a missing chain is the
  empty list, a missing link selector the empty string) and the article-URL pattern. A
  chain is a list of strings, as in the configuration file that the program documents.
\<close>

record config =
  sel_title :: "ustr list"
  sel_time :: "ustr list"
  sel_category :: "ustr list"
  sel_tags :: "ustr list"
  sel_content :: "ustr list"
  sel_list_link :: ustr
  article_url_regex :: "ustr option"

record article =
  title :: ustr
  published_at :: ustr
  category :: ustr
  tags :: "ustr list"
  url :: ustr
  content_html :: ustr





text \<open>
  The page without any element, the parser and the serializer of the examples, and the
  configuration without any selector.
\<close>

definition empty_page :: node where
  "empty_page = Elem (u ''[document]'') [] [] []"



definition empty_config :: config where
  "empty_config = \<lparr>sel_title = [], sel_time = [], sel_category = [], sel_tags = [],
                     sel_content = [], sel_list_link = [], article_url_regex = None\<rparr>"






section \<open>Encoding resolver\<close>

text \<open>
  A response as far as \<open>normalize_encoding\<close> reads it: the declared encoding (\<open>None\<close> when
  the server sent none) and the body as bytes.
\<close>

record response =
  encoding :: "ustr option"
  content :: "nat list"

text \<open>The pattern \<open>charset=['"]?([a-zA-Z0-9_-]+)\<close>, searched with \<open>re.I\<close>.\<close>

definition charset_rx :: rx where
  "charset_rx = seqs [Lit (u ''charset=''), Rep 0 (Some 1) (Cls False [(39, 39), (34, 34)]),
                      Grp (Rep 1 None (Cls False [(97, 122), (65, 90), (48, 57), (95, 95), (45, 45)]))]"

text \<open>\<open>bytes.decode("ascii", errors="ignore")\<close>: the bytes that are not ASCII are dropped.\<close>

definition decode_ascii_ignore :: "nat list \<Rightarrow> ustr" where
  "decode_ascii_ignore bs = filter (\<lambda>b. b < 128) bs"

text \<open>
  \<open>normalize_encoding(response)\<close>, returning the response as the function leaves it.
  \<open>get_encodings_from_content\<close> is the sniffer of \<open>requests.utils\<close> and
  \<open>apparent_encoding\<close> the statistical detector behind \<open>response.apparent_encoding\<close>
  (\<open>None\<close> when it has no guess).
\<close>

definition normalize_encoding ::
  "(ustr \<Rightarrow> ustr list) \<Rightarrow> (nat list \<Rightarrow> ustr option) \<Rightarrow> response \<Rightarrow> py_error + response" where
  "normalize_encoding get_encodings_from_content apparent_encoding resp =
     (if (case encoding resp of None \<Rightarrow> False
          | Some e \<Rightarrow> e \<noteq> [] \<and> lower e \<noteq> u ''iso-8859-1'')
      then Inr resp
      else let content_head = decode_ascii_ignore (take 4096 (content resp)) in
        (case rx_search True charset_rx content_head of
           Some (g0, gs) \<Rightarrow>
             (case group1 gs of
                Inl e \<Rightarrow> Inl e
              | Inr g \<Rightarrow> Inr (resp\<lparr>encoding := Some g\<rparr>))
         | None \<Rightarrow>
             (case get_encodings_from_content content_head of
                e # es \<Rightarrow> Inr (resp\<lparr>encoding := Some e\<rparr>)
              | [] \<Rightarrow>
                  Inr (resp\<lparr>encoding :=
                         Some (case apparent_encoding (content resp) of
                                 None \<Rightarrow> u ''utf-8''
                               | Some [] \<Rightarrow> u ''utf-8''
                               | Some (c # cs) \<Rightarrow> c # cs)\<rparr>))))"

text \<open>
  The resolver as the specification words it: a declared encoding other than the
  placeholder is kept; otherwise the first of the charset marker in the first 4096 bytes,
  the sniffed meta charset of that window and the detector's guess over the whole
  content; otherwise \<open>utf-8\<close>.
\<close>

fun first_some :: "'a option list \<Rightarrow> 'a \<Rightarrow> 'a" where
  "first_some [] d = d"
| "first_some (None # xs) d = first_some xs d"
| "first_some (Some x # xs) d = x"

definition charset_marker :: "ustr \<Rightarrow> ustr option" where
  "charset_marker head = (case rx_search True charset_rx head of
                            Some (g0, g # gs) \<Rightarrow> Some g
                          | _ \<Rightarrow> None)"

definition nonempty :: "ustr option \<Rightarrow> ustr option" where
  "nonempty x = (case x of Some (c # cs) \<Rightarrow> Some (c # cs) | _ \<Rightarrow> None)"

definition first_of :: "ustr list \<Rightarrow> ustr option" where
  "first_of xs = (case xs of [] \<Rightarrow> None | x # _ \<Rightarrow> Some x)"

definition resolve_encoding_spec ::
  "(ustr \<Rightarrow> ustr list) \<Rightarrow> (nat list \<Rightarrow> ustr option) \<Rightarrow> response \<Rightarrow> ustr" where
  "resolve_encoding_spec sniff detect resp =
     (let head = decode_ascii_ignore (take 4096 (content resp));
          fallback = first_some [charset_marker head, first_of (sniff head),
                                 nonempty (detect (content resp))] (u ''utf-8'')
      in case nonempty (encoding resp) of
           None \<Rightarrow> fallback
         | Some e \<Rightarrow> if lower e = u ''iso-8859-1'' then fallback else e)"

text \<open>A body that declares \<open>gb2312\<close> in a meta element.\<close>

definition gb_body :: "nat list" where
  "gb_body = u ''<meta http-equiv=\"Content-Type\" content=\"text/html; charset=gb2312\">''"

section \<open>Filename derivation\<close>















section \<open>Link discovery and the crawl\<close>









section \<open>Image localizer\<close>

text \<open>
  The library functions that \<open>download_images\<close> calls on strings: \<open>urljoin\<close>, the hex
  digest of SHA-1 (of the UTF-8 bytes of the string), the path of a parsed URL, the
  extension that \<open>os.path.splitext\<close> splits off, and \<open>os.path.join\<close>.
\<close>

record lib =
  lib_urljoin :: "ustr \<Rightarrow> ustr \<Rightarrow> ustr"
  lib_sha1_hex :: "ustr \<Rightarrow> ustr"
  lib_url_path :: "ustr \<Rightarrow> ustr"
  lib_splitext :: "ustr \<Rightarrow> ustr"
  lib_path_join :: "ustr \<Rightarrow> ustr \<Rightarrow> ustr"

text \<open>
  The state of one pass: the cache of the pass, the files on disk (path and content) and
  the log of the URLs requested from the network.
\<close>

record pass =
  cache :: "(ustr \<times> ustr) list"
  files :: "(ustr \<times> nat list) list"
  requests :: "ustr list"

text \<open>\<open>img.get("src") or img.get("data-src") or img.get("data-original") or ""\<close>, stripped.\<close>

definition img_src :: "node \<Rightarrow> ustr" where
  "img_src img =
     strip (first_some [nonempty (get_attr img (u ''src'')), nonempty (get_attr img (u ''data-src'')),
                        nonempty (get_attr img (u ''data-original''))] [])"

text \<open>\<open>node[k] = v\<close>: the value of an attribute that is there is replaced, a new one added.\<close>

fun assoc_set :: "ustr \<Rightarrow> ustr \<Rightarrow> (ustr \<times> ustr) list \<Rightarrow> (ustr \<times> ustr) list" where
  "assoc_set k v [] = [(k, v)]"
| "assoc_set k v ((k', v') # al) =
     (if k' = k then (k, v) # al else (k', v') # assoc_set k v al)"

fun set_attr :: "node \<Rightarrow> ustr \<Rightarrow> ustr \<Rightarrow> node" where
  "set_attr (Text s) k v = Text s"
| "set_attr (Elem t a m cs) k v = Elem t (assoc_set k v a) m cs"

text \<open>The file name of an image: twelve digits of the hash of its URL and the extension.\<close>

definition image_filename :: "lib \<Rightarrow> ustr \<Rightarrow> ustr" where
  "image_filename l full_url =
     (let filename_hash = take 12 (lib_sha1_hex l full_url);
          ext = lib_splitext l (lib_url_path l full_url)
      in filename_hash @ (if ext = [] \<or> length ext > 5 then u ''.jpg'' else ext))"

definition rel_path :: "lib \<Rightarrow> ustr \<Rightarrow> ustr" where
  "rel_path l full_url =
     replace [92] (u ''/'') (lib_path_join l (u ''images'') (image_filename l full_url))"

text \<open>
  The body of the loop for one \<open>img\<close> element. \<open>http_get url\<close> is \<open>session.get\<close> followed by
  \<open>raise_for_status\<close>: the content, or \<open>None\<close> when a \<open>RequestException\<close> is raised, which
  the loop catches.
\<close>

definition localize_img ::
  "lib \<Rightarrow> (ustr \<Rightarrow> nat list option) \<Rightarrow> ustr \<Rightarrow> ustr \<Rightarrow> pass \<Rightarrow> node \<Rightarrow> pass \<times> node" where
  "localize_img l http_get article_url images_dir st img =
     (let src = img_src img in
      if src = [] then (st, img)
      else
        let full_url = lib_urljoin l article_url src in
        (case map_of (cache st) full_url of
           Some cached \<Rightarrow> (st, set_attr img (u ''src'') cached)
         | None \<Rightarrow>
            (let file_path = lib_path_join l images_dir (image_filename l full_url) in
             case (if map_of (files st) file_path = None
                   then (case http_get full_url of
                           None \<Rightarrow> None
                         | Some body \<Rightarrow>
                             Some (st\<lparr>files := (file_path, body) # files st,
                                      requests := requests st @ [full_url]\<rparr>))
                   else Some st) of
               None \<Rightarrow> (st\<lparr>requests := requests st @ [full_url]\<rparr>, img)
             | Some st1 \<Rightarrow>
                 (st1\<lparr>cache := (full_url, rel_path l full_url) # cache st1\<rparr>,
                  set_attr img (u ''src'') (rel_path l full_url)))))"

fun localize_imgs ::
  "lib \<Rightarrow> (ustr \<Rightarrow> nat list option) \<Rightarrow> ustr \<Rightarrow> ustr \<Rightarrow> pass \<Rightarrow> node list
   \<Rightarrow> pass \<times> node list" where
  "localize_imgs l http_get article_url images_dir st [] = (st, [])"
| "localize_imgs l http_get article_url images_dir st (img # imgs) =
     (case localize_img l http_get article_url images_dir st img of
        (st1, img1) \<Rightarrow>
          (case localize_imgs l http_get article_url images_dir st1 imgs of
             (st2, imgs1) \<Rightarrow> (st2, img1 # imgs1)))"

text \<open>
  \<open>download_images\<close>: the loop over the \<open>img\<close> elements of the parsed content in document
  order, from an empty cache and the files \<open>disk\<close> found on disk. The result is the state
  after the pass and the elements as the loop leaves them; the function returns the
  serialization of the tree that holds them.
\<close>

definition download_images ::
  "lib \<Rightarrow> (ustr \<Rightarrow> nat list option) \<Rightarrow> (ustr \<Rightarrow> node) \<Rightarrow> (ustr \<times> nat list) list
   \<Rightarrow> ustr \<Rightarrow> ustr \<Rightarrow> ustr \<Rightarrow> pass \<times> node list" where
  "download_images l http_get parse disk content_html0 article_url output_dir =
     localize_imgs l http_get article_url (lib_path_join l output_dir (u ''images''))
       \<lparr>cache = [], files = disk, requests = []\<rparr>
       (find_all (named [u ''img'']) (parse content_html0))"

subsection \<open>Example library and images\<close>

text \<open>
  Stand-ins for the library on the two example URLs \<open>http://s.example/pic/a.png\<close> and
  \<open>http://s.example/pic/b.png\<close>: the join of a base with an absolute URL is that URL, the
  digest is one fixed string of forty digits for the first URL and another for any other,
  the path of a URL is what follows the host, the extension is \<open>.png\<close>, and paths join with
  a slash.
\<close>

definition a_url :: ustr where
  "a_url = u ''http://s.example/pic/a.png''"

definition b_url :: ustr where
  "b_url = u ''http://s.example/pic/b.png''"

definition demo_sha1 :: "ustr \<Rightarrow> ustr" where
  "demo_sha1 s = (if s = a_url then u ''0123456789abcdef0123456789abcdef01234567''
                  else u ''89abcdef0123456789abcdef0123456789abcdef'')"

definition demo_urljoin :: "ustr \<Rightarrow> ustr \<Rightarrow> ustr" where
  "demo_urljoin base_url src = src"

definition demo_url_path :: "ustr \<Rightarrow> ustr" where
  "demo_url_path s = drop 16 s"

definition demo_splitext :: "ustr \<Rightarrow> ustr" where
  "demo_splitext p = u ''.png''"

definition demo_path_join :: "ustr \<Rightarrow> ustr \<Rightarrow> ustr" where
  "demo_path_join a b = a @ u ''/'' @ b"

definition demo_lib :: lib where
  "demo_lib = \<lparr>lib_urljoin = demo_urljoin, lib_sha1_hex = demo_sha1,
               lib_url_path = demo_url_path, lib_splitext = demo_splitext,
               lib_path_join = demo_path_join\<rparr>"

definition a_img :: node where
  "a_img = Elem (u ''img'') [(u ''src'', a_url)] [] []"

definition b_img :: node where
  "b_img = Elem (u ''img'') [(u ''src'', b_url)] [] []"

text \<open>A network that is down, one that serves every URL, and one that fails for the first URL only.\<close>

definition net_down :: "ustr \<Rightarrow> nat list option" where
  "net_down link = None"

definition net_up :: "ustr \<Rightarrow> nat list option" where
  "net_up link = Some [137, 80, 78, 71]"

definition net_partial :: "ustr \<Rightarrow> nat list option" where
  "net_partial link = (if link = a_url then None else Some [137, 80, 78, 71])"

definition empty_pass :: pass where
  "empty_pass = \<lparr>cache = [], files = [], requests = []\<rparr>"

definition demo_article :: ustr where
  "demo_article = u ''http://blog.sina.com.cn/s/blog_1.html''"

definition demo_dir :: ustr where
  "demo_dir = u ''output/images''"

section \<open>Properties\<close>

subsection \<open>Strings and regular expressions\<close>

lemma lit_match_cs_starts_with:
  "lit_match ci p s = Some r \<Longrightarrow> \<not> ci \<Longrightarrow> starts_with p s"
  by (induction ci p s rule: lit_match.induct)
     (auto simp: starts_with_def chr_eq_def split: if_splits)

lemma seq_lit_match_starts_with:
  assumes "rx_match False (Seq (Lit p) r) (g, s) \<noteq> []"
  shows "starts_with p s"
proof (cases "lit_match False p s")
  case None
  with assms show ?thesis by simp
next
  case (Some t)
  then show ?thesis by (rule lit_match_cs_starts_with) simp
qed

lemma search_seq_lit_contains:
  "rx_search False (Seq (Lit p) r) s \<noteq> None \<Longrightarrow> contains p s"
proof (induction s)
  case Nil
  have "rx_match False (Seq (Lit p) r) ([], []) \<noteq> []"
  proof
    assume "rx_match False (Seq (Lit p) r) ([], []) = []"
    then have "rx_search False (Seq (Lit p) r) [] = None"
      by (simp del: rx_match.simps)
    with Nil show False by simp
  qed
  then have "starts_with p []" by (rule seq_lit_match_starts_with)
  then show ?case by (simp add: starts_with_def)
next
  case (Cons c cs)
  show ?case
  proof (cases "rx_match False (Seq (Lit p) r) ([], c # cs) = []")
    case True
    then have "rx_search False (Seq (Lit p) r) (c # cs) = rx_search False (Seq (Lit p) r) cs"
      by (simp del: rx_match.simps)
    with Cons.prems have "rx_search False (Seq (Lit p) r) cs \<noteq> None"
      by simp
    then show ?thesis using Cons.IH by simp
  next
    case False
    then have "starts_with p (c # cs)" by (rule seq_lit_match_starts_with)
    then show ?thesis by simp
  qed
qed

subsection \<open>C10: without a configured pattern, the substring check decides\<close>

text \<open>
  C10. When no article-URL pattern is configured (the pattern is \<open>None\<close> or the empty
  string), \<open>is_article_url\<close> is the substring check for \<open>blog.sina.com.cn/s/blog_\<close>:
  every string that the structural pattern of the last branch matches contains that
  substring, so the last branch never accepts a URL the substring check rejected.
\<close>

theorem is_article_url_no_pattern:
  "is_article_url re_user link None = contains (u ''blog.sina.com.cn/s/blog_'') link
   \<and> is_article_url re_user link (Some []) = contains (u ''blog.sina.com.cn/s/blog_'') link
   \<and> (rx_search False article_rx link \<noteq> None \<longrightarrow> contains (u ''blog.sina.com.cn/s/blog_'') link)"
proof -
  have imp: "rx_search False article_rx link \<noteq> None \<Longrightarrow> contains (u ''blog.sina.com.cn/s/blog_'') link"
    unfolding article_rx_def seqs.simps by (rule search_seq_lit_contains)
  show ?thesis
  proof (cases "rx_search False article_rx link = None")
    case True
    then show ?thesis unfolding is_article_url_def by (simp del: rx_search.simps)
  next
    case False
    with imp have "contains (u ''blog.sina.com.cn/s/blog_'') link" by blast
    then show ?thesis unfolding is_article_url_def by (simp del: rx_search.simps)
  qed
qed

theorem is_article_url_no_pattern_witness:
  "rx_search False article_rx (u ''http://blog.sina.com.cn/s/blog_4a3b01.html'') \<noteq> None
   \<and> contains (u ''blog.sina.com.cn/s/blog_'') (u ''http://blog.sina.com.cn/s/blog_4a3b01.html'')
   \<and> is_article_url (\<lambda>p s. False) (u ''http://blog.sina.com.cn/s/blog_4a3b01.html'') None"
proof -
  have h: "rx_search False article_rx (u ''http://blog.sina.com.cn/s/blog_4a3b01.html'') \<noteq> None"
    by code_simp
  from h is_article_url_no_pattern [of "\<lambda>p s. False" "u ''http://blog.sina.com.cn/s/blog_4a3b01.html''"]
  show ?thesis by blast
qed

subsection \<open>C9: sanitizing twice is sanitizing once\<close>

lemma tag_name_remove_all [simp]: "tag_name (remove_all q n) = tag_name n"
  by (cases n) simp_all

lemma get_attr_remove_all [simp]: "get_attr (remove_all q n) k = get_attr n k"
  by (cases n) simp_all

lemma get_multi_remove_all [simp]: "get_multi (remove_all q n) k = get_multi n k"
  by (cases n) simp_all

lemma matches_compound_remove_all: "matches_compound c (remove_all q n) = matches_compound c n"
  by (cases c) (simp add: attr_string_def cong: option.case_cong)

lemma is_script_local: "is_script (remove_all q n) = is_script n"
  by (simp add: is_script_def named_def)

lemma is_removed_local: "is_removed (remove_all q n) = is_removed n"
  unfolding is_removed_def by (simp only: matches_compound_remove_all)

text \<open>
  Removing by a predicate that looks at the element alone is idempotent, and two such
  removals commute.
\<close>

lemma remove_all_idem:
  assumes "\<And>q n. p (remove_all q n) = p n"
  shows "remove_all p (remove_all p n) = remove_all p n"
proof (induction n)
  case (Text s)
  show ?case by simp
next
  case (Elem t a m cs)
  have "filter (\<lambda>c. \<not> p c) (map (remove_all p) (filter (\<lambda>c. \<not> p c) cs))
        = map (remove_all p) (filter (\<lambda>c. \<not> p c) cs)"
    by (simp add: filter_map o_def assms)
  moreover have "map (remove_all p) (map (remove_all p) (filter (\<lambda>c. \<not> p c) cs))
        = map (remove_all p) (filter (\<lambda>c. \<not> p c) cs)"
    using Elem.IH by simp
  ultimately show ?case by simp
qed

lemma remove_all_commute:
  assumes "\<And>q n. p (remove_all q n) = p n" and "\<And>q n. r (remove_all q n) = r n"
  shows "remove_all p (remove_all r n) = remove_all r (remove_all p n)"
proof (induction n)
  case (Text s)
  show ?case by simp
next
  case (Elem t a m cs)
  have "map (remove_all p) (filter (\<lambda>c. \<not> p c) (map (remove_all r) (filter (\<lambda>c. \<not> r c) cs)))
      = map (remove_all p) (map (remove_all r) (filter (\<lambda>c. \<not> p c) (filter (\<lambda>c. \<not> r c) cs)))"
    by (simp add: filter_map o_def assms)
  also have "\<dots> = map (remove_all r) (map (remove_all p) (filter (\<lambda>c. \<not> r c) (filter (\<lambda>c. \<not> p c) cs)))"
  proof -
    have a: "filter (\<lambda>c. \<not> p c) (filter (\<lambda>c. \<not> r c) cs) = filter (\<lambda>c. \<not> r c) (filter (\<lambda>c. \<not> p c) cs)"
      by (induction cs) simp_all
    have b: "map (remove_all p) (map (remove_all r) xs) = map (remove_all r) (map (remove_all p) xs)"
      if "set xs \<subseteq> set cs" for xs
      using that Elem.IH by (induction xs) simp_all
    have "set (filter (\<lambda>c. \<not> r c) (filter (\<lambda>c. \<not> p c) cs)) \<subseteq> set cs" by auto
    from b [OF this] show ?thesis by (simp only: a)
  qed
  also have "\<dots> = map (remove_all r) (filter (\<lambda>c. \<not> r c) (map (remove_all p) (filter (\<lambda>c. \<not> p c) cs)))"
    by (simp add: filter_map o_def assms)
  finally show ?case by simp
qed

text \<open>
  C9. Content sanitization is idempotent: \<open>clean_content\<close> removes the
  script/style/noscript/iframe subtrees and the subtrees that match the
  tag-list/category/share/comment class or id markers, and applying it to a node it has
  already sanitized changes nothing.
\<close>

theorem clean_content_idempotent: "clean_content (clean_content node) = clean_content node"
proof -
  have "remove_all is_script (remove_all is_removed (remove_all is_script node))
        = remove_all is_removed (remove_all is_script (remove_all is_script node))"
    by (rule remove_all_commute [OF is_script_local is_removed_local])
  also have "\<dots> = remove_all is_removed (remove_all is_script node)"
    by (simp only: remove_all_idem [of is_script, OF is_script_local])
  finally have "remove_all is_removed (remove_all is_script (remove_all is_removed (remove_all is_script node)))
        = remove_all is_removed (remove_all is_removed (remove_all is_script node))"
    by (rule arg_cong)
  also have "\<dots> = remove_all is_removed (remove_all is_script node)"
    by (simp only: remove_all_idem [of is_removed, OF is_removed_local])
  finally show ?thesis by (simp only: clean_content_def)
qed

subsection \<open>C1: which steps of \<open>guess_content_node\<close> avoid tag blocks\<close>

lemmas eval_defs = u_def in_ranges_def chr_eq_def cls_match_def is_space_def space_ranges_def
  strip_def starts_with_def lower_def lower_cp_def upper_cp_def word_tag_def word_category_def
  get_text_def find_all_def find_first_def named_def class_matches_def id_matches_def
  class_string_def attr_string_def

lemma accept_not_tag: "accept x = Some n \<Longrightarrow> \<not> is_tag_block n"
  by (cases x) (simp_all add: accept_def split: if_splits)

lemma first_container_not_tag: "first_container css soup sels = Some n \<Longrightarrow> \<not> is_tag_block n"
proof (induction sels)
  case Nil
  then show ?case by simp
next
  case (Cons sel sels)
  show ?case
  proof (cases "accept (select_one css sel soup)")
    case None
    with Cons show ?thesis by simp
  next
    case (Some m)
    with Cons.prems have "m = n" by simp
    with Some show ?thesis by (blast dest: accept_not_tag)
  qed
qed

lemma largest_text_div_props:
  assumes "largest_text_div soup = Some n"
  shows "n \<in> set (find_all (named [u ''div'']) soup) \<and> \<not> is_noise_node n"
proof -
  let ?k = "\<lambda>x. - int (length (get_text (u '' '') x))"
  from assms obtain d ds
    where f: "filter (\<lambda>c. \<not> is_noise_node c) (find_all (named [u ''div'']) soup) = d # ds"
      and n: "n = hd (sort_key ?k (d # ds))"
    by (auto simp: largest_text_div_def split: list.splits)
  have "length (sort_key ?k (d # ds)) = length (d # ds)" by (rule length_sort)
  then have "sort_key ?k (d # ds) \<noteq> []" by (simp only: length_0_conv [symmetric]) simp
  then have "hd (sort_key ?k (d # ds)) \<in> set (sort_key ?k (d # ds))" by (rule hd_in_set)
  then have "n \<in> set (sort_key ?k (d # ds))" by (simp only: n)
  then have "n \<in> set (d # ds)" by (simp only: set_sort)
  then have "n \<in> set (filter (\<lambda>c. \<not> is_noise_node c) (find_all (named [u ''div'']) soup))"
    using f by simp
  then show ?thesis by simp
qed

lemma starts_with_map:
  assumes "starts_with p s"
  shows "starts_with (map f p) (map f s)"
proof -
  from assms have "take (length p) s = p" by (simp add: starts_with_def)
  then have "map f (take (length p) s) = map f p" by simp
  then show ?thesis by (simp add: starts_with_def take_map)
qed

lemma contains_map: "contains p s \<Longrightarrow> contains (map f p) (map f s)"
proof (induction s)
  case Nil
  then show ?case by simp
next
  case (Cons c cs)
  from Cons.prems have "starts_with p (c # cs) \<or> contains p cs" by simp
  then show ?case
  proof
    assume "starts_with p (c # cs)"
    then have "starts_with (map f p) (map f (c # cs))" by (rule starts_with_map)
    then show ?thesis by simp
  next
    assume "contains p cs"
    then have "contains (map f p) (map f cs)" by (rule Cons.IH)
    then show ?thesis by simp
  qed
qed

lemma lit_match_prefix: "starts_with p s \<Longrightarrow> lit_match False p s \<noteq> None"
proof (induction p arbitrary: s)
  case Nil
  show ?case by simp
next
  case (Cons a p)
  then obtain c cs where s: "s = c # cs" by (cases s) (auto simp: starts_with_def)
  with Cons.prems have "a = c" and "starts_with p cs" by (auto simp: starts_with_def)
  with Cons.IH [of cs] s show ?case by (simp add: chr_eq_def)
qed

lemma lit_rx_match: "starts_with p (snd st) \<Longrightarrow> rx_match False (Lit p) st \<noteq> []"
  using lit_match_prefix [of p "snd st"] by (auto split: option.splits)

lemma alts_match:
  "r \<in> set rs \<Longrightarrow> rx_match ci r st \<noteq> [] \<Longrightarrow> rx_match ci (alts rs) st \<noteq> []"
proof (induction rs rule: alts.induct)
  case 1
  then show ?case by simp
next
  case (2 r')
  then show ?case by simp
next
  case (3 r' v va)
  then show ?case by auto
qed

lemma search_finds:
  assumes "\<And>s'. starts_with p s' \<Longrightarrow> rx_match ci r ([], s') \<noteq> []"
  shows "contains p s \<Longrightarrow> rx_search ci r s \<noteq> None"
proof (induction s)
  case Nil
  then have "starts_with p []" by (simp add: starts_with_def)
  then have "rx_match ci r ([], []) \<noteq> []" by (rule assms)
  then show ?case by (cases "rx_match ci r ([], [])") (simp_all del: rx_match.simps)
next
  case (Cons c cs)
  show ?case
  proof (cases "rx_match ci r ([], c # cs)")
    case (Cons st rest)
    then show ?thesis by (simp del: rx_match.simps)
  next
    case Nil
    then have "\<not> starts_with p (c # cs)" using assms by blast
    with Cons.prems have "contains p cs" by simp
    then have "rx_search ci r cs \<noteq> None" by (rule Cons.IH)
    with Nil show ?thesis by (simp del: rx_match.simps)
  qed
qed

lemma marker_is_noise:
  assumes "contains (u ''articalTag'') (class_string n)"
  shows "is_noise_node n"
proof -
  have l: "lower (u ''articalTag'') = u ''articaltag''"
    by (simp add: lower_def lower_cp_def u_def)
  from assms have "contains (lower (u ''articalTag'')) (lower (class_string n))"
    unfolding lower_def by (rule contains_map)
  then have c: "contains (u ''articaltag'') (lower (class_string n))" by (simp only: l)
  have m: "rx_match False noise_class_rx ([], s') \<noteq> []" if "starts_with (u ''articaltag'') s'" for s'
  proof -
    from that have "rx_match False (Lit (u ''articaltag'')) ([], s') \<noteq> []"
      using lit_rx_match [of "u ''articaltag''" "([], s')"] by simp
    moreover have "Lit (u ''articaltag'') \<in> set (map (\<lambda>w. Lit (u w))
       [''nav'', ''menu'', ''footer'', ''foot'', ''side'', ''comment'', ''share'', ''recommend'',
        ''articaltag''])" by simp
    ultimately show ?thesis unfolding noise_class_rx_def by (rule alts_match [rotated])
  qed
  from search_finds [of "u ''articaltag''" False noise_class_rx, OF m c]
  show ?thesis by (simp add: is_noise_node_def Let_def del: rx_search.simps)
qed

text \<open>
  C1, as the code has it. A container that \<open>guess_content_node\<close> returns is the first
  match of a configured content selector (returned as it is), or it is not a tag block
  (the known containers, the id pattern and the class pattern skip tag blocks), or it
  comes from the last-resort scan and is then a \<open>div\<close> that is not a noise node; in
  particular its classes do not hold the tag-list marker.
\<close>

theorem guess_content_node_tag_block:
  assumes "guess_content_node rejects css soup selectors = Inr (Some n)"
  shows "pick_html rejects css soup selectors = Inr (Some n)
         \<or> \<not> is_tag_block n
         \<or> (largest_text_div soup = Some n \<and> \<not> is_noise_node n
             \<and> \<not> contains (u ''articalTag'') (class_string n))"
proof (cases "pick_html rejects css soup selectors")
  case (Inl e)
  with assms show ?thesis by (simp add: guess_content_node_def)
next
  case (Inr found)
  show ?thesis
  proof (cases found)
    case (Some m)
    with Inr assms show ?thesis by (simp add: guess_content_node_def)
  next
    case None
    with Inr have p: "pick_html rejects css soup selectors = Inr None" by simp
    let ?known = "[u ''div#sina_keyword_ad_area2'', u ''div.articalContent'',
                   u ''div#articlebody'', u ''div#artibody'']"
    show ?thesis
    proof (cases "first_container css soup ?known")
      case (Some m)
      with p assms have "m = n" by (simp add: guess_content_node_def)
      with Some show ?thesis by (blast dest: first_container_not_tag)
    next
      case None
      note k = None
      let ?a = "accept (find_first (\<lambda>n. named [u ''div''] n
                   \<and> id_matches True (Lit (u ''sina_keyword_ad_area'')) n) soup)"
      show ?thesis
      proof (cases ?a)
        case (Some m)
        with p k assms have "m = n" by (simp add: guess_content_node_def)
        with Some show ?thesis by (blast dest: accept_not_tag)
      next
        case None
        note a = None
        let ?b = "accept (find_first (\<lambda>n. named [u ''div''] n
                   \<and> class_matches True content_class_rx n) soup)"
        show ?thesis
        proof (cases ?b)
          case (Some m)
          with p k a assms have "m = n" by (simp add: guess_content_node_def)
          with Some show ?thesis by (blast dest: accept_not_tag)
        next
          case None
          with p k a assms have l: "largest_text_div soup = Some n"
            by (simp add: guess_content_node_def)
          from largest_text_div_props [OF l] have nn: "\<not> is_noise_node n" by simp
          then have "\<not> contains (u ''articalTag'') (class_string n)"
            using marker_is_noise by blast
          with l nn show ?thesis by simp
        qed
      qed
    qed
  qed
qed

lemma tag_div_is_tag_block: "is_tag_block tag_div"
  by (simp add: eval_defs tag_div_def is_tag_block_def tag_rx_def)

lemma tag_div_not_noise: "\<not> is_noise_node tag_div"
  by (simp add: eval_defs tag_div_def is_noise_node_def noise_id_rx_def noise_class_rx_def)

lemma largest_text_div_tag_page: "largest_text_div tag_page = Some tag_div"
  by (simp add: largest_text_div_def find_all_def named_def tag_page_def tag_div_not_noise)
     (simp add: tag_div_def u_def)

lemma guess_content_node_tag_page:
  "guess_content_node rejects_strict no_css tag_page [] = Inr (Some tag_div)"
proof -
  have a: "first_container no_css tag_page
             [u ''div#sina_keyword_ad_area2'', u ''div.articalContent'',
              u ''div#articlebody'', u ''div#artibody''] = None"
    by (simp add: accept_def select_one_def soup_select_def known_selector_def eval_defs
          tag_page_def tag_div_def)
  have b: "find_first (\<lambda>n. named [u ''div''] n
             \<and> id_matches True (Lit (u ''sina_keyword_ad_area'')) n) tag_page = None"
    by (simp add: eval_defs tag_page_def tag_div_def)
  have c: "find_first (\<lambda>n. named [u ''div''] n
             \<and> class_matches True content_class_rx n) tag_page = None"
    by (simp add: eval_defs tag_page_def tag_div_def)
  show ?thesis
    by (simp add: guess_content_node_def a b c largest_text_div_tag_page accept_def
          del: first_container.simps)
qed

lemma tag_container_is_tag_block: "is_tag_block tag_container"
  by (simp add: eval_defs tag_container_def is_tag_block_def tag_rx_def)

lemma guess_content_node_configured:
  "guess_content_node rejects_strict no_css body_page [u ''div.articalContent'']
     = Inr (Some tag_container)"
proof -
  have "select_one_checked rejects_strict no_css (u ''div.articalContent'') body_page
          = Inr (Some tag_container)"
    by (simp add: select_one_checked_def soup_select_checked_def soup_select_def
          known_selector_def eval_defs body_page_def tag_container_def body_div_def)
  moreover have "u ''div.articalContent'' \<noteq> []" by (simp add: u_def)
  ultimately show ?thesis by (simp add: guess_content_node_def)
qed

text \<open>
  C1 as stated fails. On the page \<open>tag_page\<close>, with no configured selector, the last-resort
  scan returns the only \<open>div\<close>, and that \<open>div\<close> is a tag block (its short text holds both
  words). On the page \<open>body_page\<close>, with the configured content selector
  \<open>div.articalContent\<close>, the match is returned although it is a tag block (it holds an
  element of class \<open>blog_tag\<close>).
\<close>

theorem guess_content_node_returns_tag_block:
  "guess_content_node rejects_strict no_css tag_page [] = Inr (Some tag_div)
   \<and> is_tag_block tag_div
   \<and> guess_content_node rejects_strict no_css body_page [u ''div.articalContent'']
       = Inr (Some tag_container)
   \<and> is_tag_block tag_container"
  using guess_content_node_tag_page tag_div_is_tag_block guess_content_node_configured
    tag_container_is_tag_block by simp

lemma guess_content_node_body_page:
  "guess_content_node rejects_strict no_css body_page [] = Inr (Some body_div)"
  by (simp add: guess_content_node_def accept_def select_one_def soup_select_def
        known_selector_def eval_defs body_page_def body_div_def tag_container_def
        is_tag_block_def tag_rx_def)

text \<open>
  On \<open>body_page\<close> without configured selector, the container of class \<open>articalContent\<close> is
  a tag block and is skipped; the body found next is not one.
\<close>

theorem guess_content_node_tag_block_witness:
  "guess_content_node rejects_strict no_css body_page [] = Inr (Some body_div)
   \<and> (pick_html rejects_strict no_css body_page [] = Inr (Some body_div)
       \<or> \<not> is_tag_block body_div
       \<or> (largest_text_div body_page = Some body_div \<and> \<not> is_noise_node body_div
           \<and> \<not> contains (u ''articalTag'') (class_string body_div)))"
  using guess_content_node_tag_block [OF guess_content_node_body_page]
    guess_content_node_body_page by simp

subsection \<open>C2: the first selector that yields text wins\<close>


lemma meta_prefix_split:
  assumes "starts_with (u ''meta:'') sel"
  shows "subscript (split1 58 sel) 1 = Inr (drop 5 sel)"
proof -
  have len: "length (u ''meta:'') = 5" by (simp add: u_def)
  from assms have "take 5 sel = u ''meta:''" unfolding starts_with_def len .
  then have "u ''meta:'' @ drop 5 sel = sel" by (metis append_take_drop_id)
  then have r: "sel = [109, 101, 116, 97, 58] @ drop 5 sel"
    by (simp add: u_def)
  have "subscript (split1 58 ([109, 101, 116, 97, 58] @ r)) 1 = Inr r" for r :: ustr
    by (simp add: split1_def subscript_def)
  from this [of "drop 5 sel"] r show ?thesis by simp
qed

lemma meta_prefix_split' [simp]:
  "starts_with (u ''meta:'') sel \<Longrightarrow> subscript (split1 58 sel) (Suc 0) = Inr (drop 5 sel)"
  using meta_prefix_split by simp





lemmas eval_sel = select_one_def soup_select_def known_selector_def find_meta_def attr_is_def
  select_one_checked_def soup_select_checked_def rejects_strict_def







subsection \<open>C5: when \<open>parse_article\<close> raises and how its fields degrade to empty\<close>

text \<open>
  A search with a pattern that ends in a group returns that group, so \<open>match.group(1)\<close>
  raises nothing.
\<close>

lemma grp_captures: "st' \<in> set (rx_match ci (Grp a) st) \<Longrightarrow> fst st' \<noteq> []"
  by auto

lemma seq_captures:
  assumes "\<And>st st'. st' \<in> set (rx_match ci b st) \<Longrightarrow> fst st' \<noteq> []"
    and "st' \<in> set (rx_match ci (Seq a b) st)"
  shows "fst st' \<noteq> []"
proof -
  from assms(2) obtain s1 where "st' \<in> set (rx_match ci b s1)" by auto
  then show ?thesis by (rule assms(1))
qed

lemma search_captures:
  assumes "\<And>st st'. st' \<in> set (rx_match ci r st) \<Longrightarrow> fst st' \<noteq> []"
  shows "rx_search ci r s = Some (g0, gs) \<Longrightarrow> gs \<noteq> []"
proof (induction s arbitrary: g0)
  case Nil
  then obtain st rest where m: "rx_match ci r ([], []) = st # rest" and g: "gs = fst st"
    by (auto split: list.splits simp del: rx_match.simps)
  from m have "st \<in> set (rx_match ci r ([], []))" by simp
  then have "fst st \<noteq> []" by (rule assms)
  with g show ?case by simp
next
  case (Cons c cs)
  show ?case
  proof (cases "rx_match ci r ([], c # cs)")
    case Nil
    with Cons.prems have "rx_search ci r cs = Some (g0, gs)" by (simp del: rx_match.simps)
    then show ?thesis by (rule Cons.IH)
  next
    case (Cons st rest)
    with Cons.prems have g: "gs = fst st" by (simp del: rx_match.simps)
    from Cons have "st \<in> set (rx_match ci r ([], c # cs))" by simp
    then have "fst st \<noteq> []" by (rule assms)
    with g show ?thesis by simp
  qed
qed

lemma seq_inner:
  "st' \<in> set (rx_match ci (Seq a r) st) \<Longrightarrow> \<exists>s1. st' \<in> set (rx_match ci r s1)"
  by auto

















lemma empty_page_text: "get_text sep empty_page = []"
  by (simp add: get_text_def empty_page_def)





lemma empty_guess_content: "guess_content_node rejects_strict no_css empty_page [] = Inr None"
  by (simp add: guess_content_node_def accept_def largest_text_div_def eval_defs eval_sel
        empty_page_def)










subsection \<open>C3: the encoding fallback chain\<close>

lemma seq2_grp_captures:
  assumes "st' \<in> set (rx_match ci (seqs [a, b, Grp d]) st)"
  shows "fst st' \<noteq> []"
proof -
  from assms have "st' \<in> set (rx_match ci (Seq a (Seq b (Grp d))) st)"
    by (simp only: seqs.simps)
  then obtain s1 where "st' \<in> set (rx_match ci (Seq b (Grp d)) s1)"
    using seq_inner by blast
  then obtain s2 where "st' \<in> set (rx_match ci (Grp d) s2)"
    using seq_inner by blast
  then show ?thesis by (rule grp_captures)
qed

lemma charset_groups:
  assumes "rx_search True charset_rx s = Some (g0, gs)"
  shows "\<exists>g gs'. gs = g # gs'"
proof -
  have "\<And>st st'. st' \<in> set (rx_match True charset_rx st) \<Longrightarrow> fst st' \<noteq> []"
    unfolding charset_rx_def by (rule seq2_grp_captures)
  from search_captures [of True charset_rx, OF this assms] have "gs \<noteq> []" .
  then show ?thesis by (cases gs) simp_all
qed


lemma gb_search:
  "rx_search True charset_rx (decode_ascii_ignore (take 4096 gb_body))
     = Some (u ''charset=gb2312'', [u ''gb2312''])"
  by (simp add: gb_body_def decode_ascii_ignore_def charset_rx_def u_def in_ranges_def chr_eq_def
        cls_match_def lower_cp_def upper_cp_def)

text \<open>
  C3. The resolver keeps a declared encoding unless it is the placeholder \<open>iso-8859-1\<close>
  (compared without case); otherwise it takes, in this order, the \<open>charset=\<close> marker of the
  first 4096 bytes decoded with the non-ASCII bytes dropped, the sniffed meta charset of
  that window, the detector's guess over the whole content, and at last \<open>utf-8\<close>. It
  raises nothing and leaves exactly one encoding, the one of \<open>resolve_encoding_spec\<close>. A
  response without declared encoding whose body holds \<open>charset=gb2312\<close> resolves to
  \<open>gb2312\<close>, whatever the sniffer and the detector say.
\<close>

theorem normalize_encoding_resolves:
  "normalize_encoding sniff detect resp
     = Inr (resp\<lparr>encoding := Some (resolve_encoding_spec sniff detect resp)\<rparr>)
   \<and> normalize_encoding sniff detect \<lparr>encoding = None, content = gb_body\<rparr>
     = Inr \<lparr>encoding = Some (u ''gb2312''), content = gb_body\<rparr>"
proof
  let ?head = "decode_ascii_ignore (take 4096 (content resp))"
  show "normalize_encoding sniff detect resp
     = Inr (resp\<lparr>encoding := Some (resolve_encoding_spec sniff detect resp)\<rparr>)"
  proof (cases "case encoding resp of None \<Rightarrow> False
                | Some e \<Rightarrow> e \<noteq> [] \<and> lower e \<noteq> u ''iso-8859-1''")
    case True
    then obtain e where e: "encoding resp = Some e" "e \<noteq> []" "lower e \<noteq> u ''iso-8859-1''"
      by (cases "encoding resp") auto
    from e have "resolve_encoding_spec sniff detect resp = e"
      by (cases e) (simp_all add: resolve_encoding_spec_def nonempty_def Let_def)
    moreover from e have "resp\<lparr>encoding := Some e\<rparr> = resp" by simp
    moreover from True have "normalize_encoding sniff detect resp = Inr resp"
      by (simp add: normalize_encoding_def)
    ultimately show ?thesis by simp
  next
    case False
    then have k: "(case nonempty (encoding resp) of None \<Rightarrow> x
                   | Some e \<Rightarrow> if lower e = u ''iso-8859-1'' then x else e) = x" for x :: ustr
      by (cases "encoding resp") (auto simp: nonempty_def split: list.splits)
    have s: "resolve_encoding_spec sniff detect resp
               = first_some [charset_marker ?head, first_of (sniff ?head),
                             nonempty (detect (content resp))] (u ''utf-8'')"
      by (simp only: resolve_encoding_spec_def Let_def k)
    show ?thesis
    proof (cases "rx_search True charset_rx ?head")
      case None
      then have m: "charset_marker ?head = None" by (simp add: charset_marker_def)
      show ?thesis
      proof (cases "sniff ?head")
        case Nil
        with False None show ?thesis
          by (cases "detect (content resp)")
             (simp_all add: normalize_encoding_def s m Let_def first_of_def
                nonempty_def split: list.splits del: rx_search.simps)
      next
        case (Cons e es)
        with False None show ?thesis
          by (simp add: normalize_encoding_def s m Let_def first_of_def del: rx_search.simps)
      qed
    next
      case (Some r)
      obtain g0 gs where r: "r = (g0, gs)" by (cases r)
      from Some r obtain g gs' where gs: "gs = g # gs'" using charset_groups by blast
      from Some r gs have m: "charset_marker ?head = Some g" by (simp add: charset_marker_def)
      from False Some r gs show ?thesis
        by (simp add: normalize_encoding_def s m Let_def group1_def subscript_def
              del: rx_search.simps)
    qed
  qed
next
  show "normalize_encoding sniff detect \<lparr>encoding = None, content = gb_body\<rparr>
     = Inr \<lparr>encoding = Some (u ''gb2312''), content = gb_body\<rparr>"
    by (simp add: normalize_encoding_def gb_search group1_def subscript_def Let_def
          del: rx_search.simps)
qed

subsection \<open>C8: date-stamped file names\<close>








subsection \<open>C7: discovered links are free of duplicates\<close>










subsection \<open>C4 and C6: image localization\<close>

lemma map_of_assoc_set: "map_of (assoc_set k v al) k = Some v"
  by (induction al) auto

lemma img_src_elem:
  assumes "img_src img \<noteq> []"
  shows "\<exists>t a m cs. img = Elem t a m cs"
proof (cases img)
  case (Text s)
  with assms show ?thesis by (simp add: img_src_def nonempty_def strip_def)
next
  case (Elem t a m cs)
  then show ?thesis by simp
qed

lemma get_attr_set_attr:
  "img_src img \<noteq> [] \<Longrightarrow> get_attr (set_attr img k v) k = Some v"
  using img_src_elem [of img] by (auto simp: map_of_assoc_set)

lemma localize_img_fresh:
  assumes "img_src img \<noteq> []"
    and "map_of (cache st) (lib_urljoin l article_url (img_src img)) = None"
    and "map_of (files st)
           (lib_path_join l images_dir
              (image_filename l (lib_urljoin l article_url (img_src img)))) = None"
    and "http_get (lib_urljoin l article_url (img_src img)) = Some body"
  shows "localize_img l http_get article_url images_dir st img
         = (st\<lparr>files := (lib_path_join l images_dir
                              (image_filename l (lib_urljoin l article_url (img_src img))), body)
                           # files st,
                 requests := requests st @ [lib_urljoin l article_url (img_src img)],
                 cache := (lib_urljoin l article_url (img_src img),
                           rel_path l (lib_urljoin l article_url (img_src img))) # cache st\<rparr>,
            set_attr img (u ''src'') (rel_path l (lib_urljoin l article_url (img_src img))))"
  using assms by (simp add: localize_img_def Let_def)

lemma localize_img_on_disk:
  assumes "img_src img \<noteq> []"
    and "map_of (cache st) (lib_urljoin l article_url (img_src img)) = None"
    and "map_of (files st)
           (lib_path_join l images_dir
              (image_filename l (lib_urljoin l article_url (img_src img)))) = Some old"
  shows "localize_img l http_get article_url images_dir st img
         = (st\<lparr>cache := (lib_urljoin l article_url (img_src img),
                           rel_path l (lib_urljoin l article_url (img_src img))) # cache st\<rparr>,
            set_attr img (u ''src'') (rel_path l (lib_urljoin l article_url (img_src img))))"
  using assms by (simp add: localize_img_def Let_def)

lemma localize_img_cached:
  assumes "img_src img \<noteq> []"
    and "map_of (cache st) (lib_urljoin l article_url (img_src img)) = Some p"
  shows "localize_img l http_get article_url images_dir st img = (st, set_attr img (u ''src'') p)"
  using assms by (simp add: localize_img_def Let_def)

lemma localize_img_failed:
  assumes "img_src img \<noteq> []"
    and "map_of (cache st) (lib_urljoin l article_url (img_src img)) = None"
    and "map_of (files st)
           (lib_path_join l images_dir
              (image_filename l (lib_urljoin l article_url (img_src img)))) = None"
    and "http_get (lib_urljoin l article_url (img_src img)) = None"
  shows "localize_img l http_get article_url images_dir st img
         = (st\<lparr>requests := requests st @ [lib_urljoin l article_url (img_src img)]\<rparr>, img)"
  using assms by (simp add: localize_img_def Let_def)

text \<open>
  C4. The local path of an image depends on its absolute URL alone (through
  \<open>image_filename\<close>: twelve digits of the hash and the extension of the URL path, or
  \<open>.jpg\<close>). For an image with a source whose URL is not yet cached, and whose file is on
  disk or can be fetched: the first invocation sets the source to \<open>rel_path\<close> of the URL; a
  second invocation in a new pass over the disk the first one left sets the same source
  and requests nothing from the network; a second occurrence in the same pass gets the
  same source without a request; and when the file was on disk already, the first
  invocation requests nothing either.
\<close>

theorem image_filename_deterministic:
  assumes src: "img_src img \<noteq> []"
    and full: "full = lib_urljoin l article_url (img_src img)"
    and path: "path = lib_path_join l images_dir (image_filename l full)"
    and fresh: "map_of (cache st) full = None"
    and ok: "map_of (files st) path \<noteq> None \<or> get1 full \<noteq> None"
    and run1: "localize_img l get1 article_url images_dir st img = (st1, img1)"
    and run2: "localize_img l get2 article_url images_dir
                 \<lparr>cache = [], files = files st1, requests = []\<rparr> img = (st2, img2)"
    and run3: "localize_img l get3 article_url images_dir st1 img = (st3, img3)"
  shows "get_attr img1 (u ''src'') = Some (rel_path l full)
         \<and> get_attr img2 (u ''src'') = Some (rel_path l full)
         \<and> requests st2 = []
         \<and> get_attr img3 (u ''src'') = Some (rel_path l full)
         \<and> requests st3 = requests st1
         \<and> (map_of (files st) path \<noteq> None \<longrightarrow> requests st1 = requests st)"
proof -
  have 1: "img1 = set_attr img (u ''src'') (rel_path l full)
           \<and> map_of (files st1) path \<noteq> None
           \<and> map_of (cache st1) full = Some (rel_path l full)
           \<and> (map_of (files st) path \<noteq> None \<longrightarrow> requests st1 = requests st)"
  proof (cases "map_of (files st) path = None")
    case True
    with ok obtain body where b: "get1 full = Some body" by auto
    from localize_img_fresh [of img st l article_url images_dir get1 body]
      src fresh True b run1
    show ?thesis unfolding full path by auto
  next
    case False
    then obtain old where "map_of (files st) path = Some old" by auto
    with localize_img_on_disk [of img st l article_url images_dir old get1] src fresh run1
    show ?thesis unfolding full path by auto
  qed
  have 2: "img2 = set_attr img (u ''src'') (rel_path l full) \<and> requests st2 = []"
  proof -
    let ?s = "\<lparr>cache = [], files = files st1, requests = []\<rparr>"
    have "map_of (cache ?s) (lib_urljoin l article_url (img_src img)) = None" by simp
    moreover from 1 obtain old where "map_of (files ?s)
           (lib_path_join l images_dir
              (image_filename l (lib_urljoin l article_url (img_src img)))) = Some old"
      unfolding full path by auto
    ultimately show ?thesis
      using localize_img_on_disk [of img ?s l article_url images_dir old get2] src run2
      unfolding full by auto
  qed
  have 3: "img3 = set_attr img (u ''src'') (rel_path l full) \<and> st3 = st1"
  proof -
    from 1 have "map_of (cache st1) (lib_urljoin l article_url (img_src img))
                 = Some (rel_path l full)"
      unfolding full by simp
    from localize_img_cached [OF src this, of get3 images_dir] run3 show ?thesis by auto
  qed
  from 1 2 3 get_attr_set_attr [OF src, of "u ''src''" "rel_path l full"] show ?thesis by simp
qed

lemma localize_imgs_length:
  "length (snd (localize_imgs l http_get article_url images_dir st imgs)) = length imgs"
proof (induction imgs arbitrary: st)
  case Nil
  show ?case by simp
next
  case (Cons img imgs)
  obtain st1 img1 where 1: "localize_img l http_get article_url images_dir st img = (st1, img1)"
    by (cases "localize_img l http_get article_url images_dir st img")
  obtain st2 imgs1 where 2: "localize_imgs l http_get article_url images_dir st1 imgs = (st2, imgs1)"
    by (cases "localize_imgs l http_get article_url images_dir st1 imgs")
  from Cons.IH [of st1] 2 have "length imgs1 = length imgs" by simp
  with 1 2 show ?case by simp
qed

text \<open>
  C6. When the fetch of an image fails (its URL not cached, its file not on disk, the
  request raising), the element is left as it was and only the request is logged; the
  loop goes on with the remaining images from that state, and every image of the content
  is processed.
\<close>

theorem fetch_failure_keeps_source:
  assumes src: "img_src img \<noteq> []"
    and full: "full = lib_urljoin l article_url (img_src img)"
    and path: "path = lib_path_join l images_dir (image_filename l full)"
    and fresh: "map_of (cache st) full = None"
    and missing: "map_of (files st) path = None"
    and failed: "http_get full = None"
  shows "localize_img l http_get article_url images_dir st img
           = (st\<lparr>requests := requests st @ [full]\<rparr>, img)
         \<and> localize_imgs l http_get article_url images_dir st (img # rest)
           = (case localize_imgs l http_get article_url images_dir
                     (st\<lparr>requests := requests st @ [full]\<rparr>) rest of
                (st2, rest1) \<Rightarrow> (st2, img # rest1))
         \<and> length (snd (localize_imgs l http_get article_url images_dir st (before @ img # rest)))
           = length (before @ img # rest)"
proof -
  have 1: "localize_img l http_get article_url images_dir st img
           = (st\<lparr>requests := requests st @ [full]\<rparr>, img)"
    using localize_img_failed [of img st l article_url images_dir http_get]
      src fresh missing failed
    unfolding full path by simp
  then have 2: "localize_imgs l http_get article_url images_dir st (img # rest)
           = (case localize_imgs l http_get article_url images_dir
                     (st\<lparr>requests := requests st @ [full]\<rparr>) rest of
                (st2, rest1) \<Rightarrow> (st2, img # rest1))"
    by simp
  from 1 2 localize_imgs_length [of l http_get article_url images_dir st "before @ img # rest"]
  show ?thesis by simp
qed


lemmas eval_img = img_src_def nonempty_def strip_def is_space_def in_ranges_def space_ranges_def
  demo_lib_def demo_urljoin_def demo_sha1_def demo_url_path_def demo_splitext_def
  demo_path_join_def a_url_def b_url_def a_img_def b_img_def u_def

lemma a_img_src: "img_src a_img = a_url"
  by (simp add: eval_img)

lemma b_img_src: "img_src b_img = b_url"
  by (simp add: eval_img)

lemma a_rel_path: "rel_path demo_lib a_url = u ''images/0123456789ab.png''"
  by (simp add: rel_path_def image_filename_def replace_def starts_with_def Let_def eval_img)

lemma b_rel_path: "rel_path demo_lib b_url = u ''images/89abcdef0123.png''"
  by (simp add: rel_path_def image_filename_def replace_def starts_with_def Let_def eval_img)

text \<open>
  The image \<open>a_img\<close> is fetched with the network up; in a second pass with the network
  down it gets the same path and nothing is requested.
\<close>

theorem image_filename_deterministic_witness:
  "img_src a_img \<noteq> [] \<and> net_up a_url \<noteq> None
   \<and> get_attr (snd (localize_img demo_lib net_up demo_article demo_dir empty_pass a_img)) (u ''src'')
       = Some (u ''images/0123456789ab.png'')
   \<and> get_attr (snd (localize_img demo_lib net_down demo_article demo_dir
                       \<lparr>cache = [],
                          files = files (fst (localize_img demo_lib net_up demo_article demo_dir
                                                empty_pass a_img)),
                          requests = []\<rparr> a_img)) (u ''src'')
       = Some (u ''images/0123456789ab.png'')
   \<and> requests (fst (localize_img demo_lib net_down demo_article demo_dir
                       \<lparr>cache = [],
                          files = files (fst (localize_img demo_lib net_up demo_article demo_dir
                                                empty_pass a_img)),
                          requests = []\<rparr> a_img)) = []"
proof -
  let ?r1 = "localize_img demo_lib net_up demo_article demo_dir empty_pass a_img"
  let ?r2 = "localize_img demo_lib net_down demo_article demo_dir
               \<lparr>cache = [], files = files (fst ?r1), requests = []\<rparr> a_img"
  let ?r3 = "localize_img demo_lib net_down demo_article demo_dir (fst ?r1) a_img"
  have src: "img_src a_img \<noteq> []" by (simp add: a_img_src a_url_def u_def)
  have full: "a_url = lib_urljoin demo_lib demo_article (img_src a_img)"
    by (simp add: a_img_src demo_lib_def demo_urljoin_def)
  have fresh: "map_of (cache empty_pass) a_url = None" by (simp add: empty_pass_def)
  have up: "net_up a_url \<noteq> None" by (simp add: net_up_def)
  then have ok: "map_of (files empty_pass)
                   (lib_path_join demo_lib demo_dir (image_filename demo_lib a_url)) \<noteq> None
                 \<or> net_up a_url \<noteq> None" by simp
  from image_filename_deterministic [where img = a_img and full = a_url and l = demo_lib
      and article_url = demo_article and images_dir = demo_dir and st = empty_pass
      and path = "lib_path_join demo_lib demo_dir (image_filename demo_lib a_url)"
      and ?get1.0 = net_up and ?st1.0 = "fst ?r1" and ?img1.0 = "snd ?r1"
      and ?get2.0 = net_down and ?st2.0 = "fst ?r2" and ?img2.0 = "snd ?r2"
      and ?get3.0 = net_down and ?st3.0 = "fst ?r3" and ?img3.0 = "snd ?r3",
      OF src full refl fresh ok]
  have "get_attr (snd ?r1) (u ''src'') = Some (rel_path demo_lib a_url)
        \<and> get_attr (snd ?r2) (u ''src'') = Some (rel_path demo_lib a_url)
        \<and> requests (fst ?r2) = []"
    by simp
  with src up show ?thesis by (simp only: a_rel_path) simp
qed

text \<open>
  With a network that fails for the first URL only, \<open>a_img\<close> keeps its remote source and
  \<open>b_img\<close> after it is localized.
\<close>

theorem fetch_failure_keeps_source_witness:
  "img_src a_img \<noteq> [] \<and> net_partial a_url = None
   \<and> localize_img demo_lib net_partial demo_article demo_dir empty_pass a_img
       = (empty_pass\<lparr>requests := [a_url]\<rparr>, a_img)
   \<and> snd (localize_imgs demo_lib net_partial demo_article demo_dir empty_pass [a_img, b_img])
       = [a_img, Elem (u ''img'') [(u ''src'', u ''images/89abcdef0123.png'')] [] []]"
proof -
  let ?st = "empty_pass\<lparr>requests := requests empty_pass @ [a_url]\<rparr>"
  have src: "img_src a_img \<noteq> []" by (simp add: a_img_src a_url_def u_def)
  have full: "a_url = lib_urljoin demo_lib demo_article (img_src a_img)"
    by (simp add: a_img_src demo_lib_def demo_urljoin_def)
  have fresh: "map_of (cache empty_pass) a_url = None" by (simp add: empty_pass_def)
  have missing: "map_of (files empty_pass)
                   (lib_path_join demo_lib demo_dir (image_filename demo_lib a_url)) = None"
    by (simp add: empty_pass_def)
  have failed: "net_partial a_url = None" by (simp add: net_partial_def)
  have bsrc: "img_src b_img \<noteq> []" by (simp add: b_img_src b_url_def u_def)
  have ne: "b_url \<noteq> a_url" by (simp add: a_url_def b_url_def u_def)
  have b: "localize_img demo_lib net_partial demo_article demo_dir ?st b_img
           = (?st\<lparr>files := (lib_path_join demo_lib demo_dir (image_filename demo_lib b_url),
                               [137, 80, 78, 71]) # files ?st,
                    requests := requests ?st @ [b_url],
                    cache := (b_url, rel_path demo_lib b_url) # cache ?st\<rparr>,
              set_attr b_img (u ''src'') (rel_path demo_lib b_url))"
    using localize_img_fresh [of b_img ?st demo_lib demo_article demo_dir net_partial
        "[137, 80, 78, 71]"] bsrc ne
    by (simp add: b_img_src demo_lib_def demo_urljoin_def empty_pass_def net_partial_def)
  from fetch_failure_keeps_source [where img = a_img and full = a_url and l = demo_lib
      and article_url = demo_article and images_dir = demo_dir and st = empty_pass
      and path = "lib_path_join demo_lib demo_dir (image_filename demo_lib a_url)"
      and http_get = net_partial and rest = "[b_img]" and before = "[]",
      OF src full refl fresh missing failed]
  have "localize_img demo_lib net_partial demo_article demo_dir empty_pass a_img = (?st, a_img)"
    and "localize_imgs demo_lib net_partial demo_article demo_dir empty_pass [a_img, b_img]
           = (case localize_imgs demo_lib net_partial demo_article demo_dir ?st [b_img] of
                (st2, rest1) \<Rightarrow> (st2, a_img # rest1))"
    by simp_all
  with b src failed show ?thesis
    by (simp add: b_rel_path empty_pass_def) (simp add: b_img_def)
qed

end
